theory Spec2Isabelle
  imports Main "HOL-Library.Word" "HOL-Library.Multiset"
begin

unbundle bit_operations_syntax

text \<open>
  Two peephole passes of the C2 compiler over its IR graph: \<open>StringIndexer\<close> folds a
  character read at a constant index of a constant string into a literal, and
  \<open>StringBuilderOptimization\<close> fuses consecutive \<open>append(char)\<close> calls on one builder into
  \<open>append(char, char)\<close>. Both are embedded below as functions on explicit state; the parts of
  the compiler they call into are modelled where they are used.
\<close>

section \<open>Constant-index folding of character reads (opto/stringIndexer.cpp)\<close>

subsection \<open>Data model\<close>

type_synonym jbyte = "8 word"
type_synonym jchar = "16 word"
type_synonym jint = "32 word"

text \<open>
  The compile-time object model behind a constant string. \<open>field_value_by_offset(...).as_object()\<close>
  yields the null object, a primitive array (the content buffer) or some other object.
\<close>

datatype ciObject = ciNullObject | ciTypeArray "jbyte list" | ciOtherObject

text \<open>
  A constant instance as the indexer reads it: the field at \<open>java_lang_String::value_offset()\<close>
  and the byte at \<open>java_lang_String::coder_offset()\<close>.
\<close>

record ciInstance =
  value_field :: ciObject
  coder_field :: jbyte

definition CODER_LATIN1 :: jbyte where
  "CODER_LATIN1 = 0"

definition CODER_UTF16 :: jbyte where
  "CODER_UTF16 = 1"

text \<open>
  \<open>TypeInt\<close>: an integer range; \<open>is_con()\<close> holds when both ends coincide and
  \<open>get_con()\<close> is then that value.
\<close>

record TypeInt =
  lo :: jint
  hi :: jint

definition is_con :: "TypeInt \<Rightarrow> bool" where
  "is_con t = (lo t = hi t)"

definition get_con :: "TypeInt \<Rightarrow> jint" where
  "get_con t = lo t"

text \<open>
  The bottom type of the string operand: \<open>isa_oopptr()\<close> is null for every type that is not
  an object pointer, and \<open>const_oop()\<close> is null for a pointer that is not a constant.
\<close>

datatype str_type = TypeOopPtr "ciInstance option" | TypeOther

record str_node =
  str_is_Con :: bool
  str_bottom_type :: str_type

text \<open>
  The index operand is an int value, so \<open>bottom_type()->is_int()\<close> (a checked downcast) gives
  its \<open>TypeInt\<close>.
\<close>

record index_node =
  index_is_Con :: bool
  index_bottom_type :: TypeInt

record StringIndexer =
  str :: str_node
  index :: index_node
  start_idx :: jint
  end_idx :: jint

definition StringIndexer_new :: "str_node \<Rightarrow> index_node \<Rightarrow> StringIndexer" where
  "StringIndexer_new s i = \<lparr>str = s, index = i, start_idx = 0, end_idx = 0\<rparr>"

definition const_oop :: "str_node \<Rightarrow> ciInstance option" where
  "const_oop s = (case str_bottom_type s of TypeOopPtr c \<Rightarrow> c | TypeOther \<Rightarrow> None)"

subsection \<open>Operations\<close>

definition is_constant_string :: "StringIndexer \<Rightarrow> bool" where
  "is_constant_string si =
     (str_is_Con (str si) \<and>
      (case str_bottom_type (str si) of
         TypeOopPtr c \<Rightarrow> c \<noteq> None
       | TypeOther \<Rightarrow> False))"

text \<open>
  \<open>is_valid_range\<close> writes \<open>_start_idx\<close> and \<open>_end_idx\<close>, so it returns the updated
  indexer with its answer. The result is \<open>None\<close> where the C++ dereferences a null pointer
  (no constant object behind the string operand). \<open>length /= 2\<close> is on a non-negative int.
\<close>

definition is_valid_range :: "StringIndexer \<Rightarrow> (bool \<times> StringIndexer) option" where
  "is_valid_range si =
     (if \<not> index_is_Con (index si) then Some (False, si)
      else let index_type = index_bottom_type (index si) in
        if \<not> is_con index_type then Some (False, si)
        else let idx = get_con index_type in
          if idx <s 0 then Some (False, si)
          else (case const_oop (str si) of
                  None \<Rightarrow> None
                | Some str_instance \<Rightarrow>
                    (case value_field str_instance of
                       ciNullObject \<Rightarrow> Some (False, si)
                     | ciOtherObject \<Rightarrow> Some (False, si)
                     | ciTypeArray array \<Rightarrow>
                         let len = int (length array);
                             len = (if coder_field str_instance = CODER_UTF16 then len div 2 else len);
                             si' = si\<lparr>start_idx := idx, end_idx := idx + 1\<rparr>
                         in Some (sint idx < len, si'))))"

definition can_optimize :: "StringIndexer \<Rightarrow> (bool \<times> StringIndexer) option" where
  "can_optimize si =
     (if is_constant_string si then is_valid_range si else Some (False, si))"

text \<open>\<open>ciTypeArray::byte_at\<close> asserts that the position is inside the array.\<close>

definition byte_at :: "jbyte list \<Rightarrow> int \<Rightarrow> jbyte option" where
  "byte_at array i = (if 0 \<le> i \<and> i < int (length array) then Some (array ! nat i) else None)"

text \<open>
  \<open>generate_optimized_code\<close>, with the host's byte order (\<open>VM_LITTLE_ENDIAN\<close>) as a
  parameter. The casts are written out: \<open>(jchar)(b & 0xFF)\<close> widens the signed byte to int
  first; \<open>((jchar) b) & 0xff\<close> converts the signed byte to a 16-bit character and masks it;
  the shifts and the \<open>|\<close> are on ints and the result is narrowed to \<open>jchar\<close>.
  \<open>intcon(ch)\<close> is the int constant of the zero-extended character. \<open>None\<close> is a null
  dereference or a failed \<open>byte_at\<close> assertion.
\<close>

definition generate_optimized_code :: "bool \<Rightarrow> StringIndexer \<Rightarrow> jint option" where
  "generate_optimized_code VM_LITTLE_ENDIAN si =
     (case const_oop (str si) of
        None \<Rightarrow> None
      | Some str_instance \<Rightarrow>
          (case value_field str_instance of
             ciNullObject \<Rightarrow> None
           | ciOtherObject \<Rightarrow> None
           | ciTypeArray array \<Rightarrow>
               if coder_field str_instance = CODER_LATIN1 then
                 (case byte_at array (sint (start_idx si)) of
                    None \<Rightarrow> None
                  | Some b \<Rightarrow>
                      let ch = (ucast ((scast b :: jint) AND 0xFF) :: jchar)
                      in Some (ucast ch))
               else
                 (let shift_high = (if VM_LITTLE_ENDIAN then 0 else 8);
                      shift_low = (if VM_LITTLE_ENDIAN then 8 else (0::nat))
                  in case byte_at array (sint (start_idx si) * 2) of
                       None \<Rightarrow> None
                     | Some x1 \<Rightarrow>
                         (case byte_at array (sint (start_idx si) * 2 + 1) of
                            None \<Rightarrow> None
                          | Some x2 \<Rightarrow>
                              let b1 = (ucast ((ucast (scast x1 :: jchar) :: jint) AND 0xff) :: jchar);
                                  b2 = (ucast ((ucast (scast x2 :: jchar) :: jint) AND 0xff) :: jchar);
                                  ch = (ucast (push_bit shift_high (ucast b1 :: jint)
                                               OR push_bit shift_low (ucast b2 :: jint)) :: jchar)
                              in Some (ucast ch)))))"

text \<open>
  \<open>StringIndexer::optimize\<close>, named \<open>optimize_index\<close> here (\<open>optimize\<close> is the entry point of
  the fusion pass below): the outer \<open>None\<close> is a crash, the inner one the null pointer returned
  when the read cannot be folded.
\<close>

definition optimize_index :: "bool \<Rightarrow> StringIndexer \<Rightarrow> (jint option \<times> StringIndexer) option" where
  "optimize_index VM_LITTLE_ENDIAN si =
     (case can_optimize si of
        None \<Rightarrow> None
      | Some (ok, si') \<Rightarrow>
          if \<not> ok then Some (None, si')
          else (case generate_optimized_code VM_LITTLE_ENDIAN si' of
                  None \<Rightarrow> None
                | Some ch \<Rightarrow> Some (Some ch, si')))"


section \<open>Append-chain fusion (opto/stringBuilderOptimization.cpp)\<close>

subsection \<open>Compiler interface: classes, symbols, methods\<close>

datatype ciKlass = StringBuilder_klass | StringBuffer_klass | Other_klass nat

datatype ciSymbol = append_name | char_signature | char_char_signature | Other_symbol nat

record ciMethod =
  holder :: ciKlass
  name :: ciSymbol
  signature :: ciSymbol

subsection \<open>The IR graph\<close>

text \<open>
  A node pointer is the node's \<open>_idx\<close>; the graph is the table of the compilation's nodes,
  indexed by \<open>_idx\<close>, so \<open>C->unique()\<close> is its length. An input edge is a node pointer or null.
  The classes of nodes the pass tells apart: static Java calls (with their resolved method or
  null), projections (with \<open>_con\<close>), and every other node, control-flow or not.
\<close>

type_synonym node_ptr = nat

datatype node_class = CallStaticJava "ciMethod option" | Proj nat | OtherCFG | OtherData

record node =
  nclass :: node_class
  in_edges :: "node_ptr option list"

type_synonym graph = "node list"

text \<open>
  The ambient compiler context: the \<open>OptimizeStringConcat\<close> flag; for each class, the
  (name, signature) pairs of the methods it declares; the root node of the compilation,
  \<open>C->root()\<close>; and \<open>Node::find\<close>. \<open>Node::find\<close> (opto/node.cpp) is not under src/ and the
  specification does not describe it, so it is a parameter of the model: \<open>find_node e g start i\<close>
  is what \<open>start->find(i)\<close> returns on the graph \<open>g\<close>, a node pointer or null.
\<close>

record env =
  OptimizeStringConcat :: bool
  klass_methods :: "ciKlass \<Rightarrow> (ciSymbol \<times> ciSymbol) list"
  root :: node_ptr
  find_node :: "graph \<Rightarrow> node_ptr \<Rightarrow> nat \<Rightarrow> node_ptr option"

text \<open>
  Modelled from the spec: \<open>ciInstanceKlass::find_method\<close> (ci/ciInstanceKlass.cpp is not under
  src/). "Method resolution: given a declaring type, a name, and a parameter-signature shape,
  return the matching callable target or none."
\<close>

definition find_method :: "env \<Rightarrow> ciKlass \<Rightarrow> ciSymbol \<Rightarrow> ciSymbol \<Rightarrow> ciMethod option" where
  "find_method e k n s =
     (if (n, s) \<in> set (klass_methods e k) then Some \<lparr>holder = k, name = n, signature = s\<rparr> else None)"

text \<open>The input positions of \<open>TypeFunc\<close>.\<close>

definition Control :: nat where "Control = 0"
definition I_O :: nat where "I_O = 1"
definition Memory :: nat where "Memory = 2"
definition FramePtr :: nat where "FramePtr = 3"
definition ReturnAdr :: nat where "ReturnAdr = 4"
definition Parms :: nat where "Parms = 5"

definition node_at :: "graph \<Rightarrow> node_ptr \<Rightarrow> node option" where
  "node_at g n = (if n < length g then Some (g ! n) else None)"

text \<open>\<open>n->in(i)\<close>; a position the node does not have reads as null.\<close>

definition node_in :: "graph \<Rightarrow> node_ptr \<Rightarrow> nat \<Rightarrow> node_ptr option" where
  "node_in g n i =
     (case node_at g n of
        None \<Rightarrow> None
      | Some nd \<Rightarrow> if i < length (in_edges nd) then in_edges nd ! i else None)"

definition is_CallStaticJava :: "graph \<Rightarrow> node_ptr \<Rightarrow> bool" where
  "is_CallStaticJava g n =
     (case node_at g n of Some nd \<Rightarrow> (case nclass nd of CallStaticJava m \<Rightarrow> True | _ \<Rightarrow> False)
      | None \<Rightarrow> False)"

definition call_method :: "graph \<Rightarrow> node_ptr \<Rightarrow> ciMethod option" where
  "call_method g n =
     (case node_at g n of Some nd \<Rightarrow> (case nclass nd of CallStaticJava m \<Rightarrow> m | _ \<Rightarrow> None)
      | None \<Rightarrow> None)"

text \<open>\<open>use->is_Proj() && use->as_Proj()->_con == c\<close>.\<close>

definition is_Proj_con :: "graph \<Rightarrow> node_ptr \<Rightarrow> nat \<Rightarrow> bool" where
  "is_Proj_con g n c =
     (case node_at g n of Some nd \<Rightarrow> (case nclass nd of Proj k \<Rightarrow> k = c | _ \<Rightarrow> False)
      | None \<Rightarrow> False)"

text \<open>
  Modelled from the spec: the def-use lists (\<open>fast_outs\<close>, \<open>raw_out\<close>; opto/node.hpp is not
  under src/). "Graph edit primitives: ... query a node's control/value successors." The uses of
  a node are the nodes with an input edge to it, one entry per edge; the table order stands for
  the order of the out array.
\<close>

definition raw_outs :: "graph \<Rightarrow> node_ptr \<Rightarrow> node_ptr list" where
  "raw_outs g n =
     concat (map (\<lambda>u. concat (map (\<lambda>e. if e = Some n then [u] else []) (in_edges (g ! u))))
                 [0..<length g])"

text \<open>
  Modelled from the spec: \<open>Node::is_CFG\<close> and \<open>ProjNode::is_CFG\<close> (opto/node.hpp and
  opto/multnode.cpp are not under src/). A call is a control-flow node; a projection is one when
  it is the control projection of a control-flow node. The walk through \<open>in(0)\<close> is cut after
  as many steps as the graph has nodes, which only a cycle of projections reaches.
\<close>

fun is_CFG_depth :: "nat \<Rightarrow> graph \<Rightarrow> node_ptr \<Rightarrow> bool" where
  "is_CFG_depth 0 g n = False"
| "is_CFG_depth (Suc k) g n =
     (case node_at g n of
        None \<Rightarrow> False
      | Some nd \<Rightarrow>
          (case nclass nd of
             CallStaticJava m \<Rightarrow> True
           | OtherCFG \<Rightarrow> True
           | OtherData \<Rightarrow> False
           | Proj c \<Rightarrow>
               c = Control \<and>
               (case node_in g n 0 of None \<Rightarrow> False | Some d \<Rightarrow> is_CFG_depth k g d)))"

definition is_CFG :: "graph \<Rightarrow> node_ptr \<Rightarrow> bool" where
  "is_CFG g n = is_CFG_depth (length g) g n"

text \<open>
  Modelled from the spec: \<open>MultiNode::proj_out_or_null\<close> (opto/multnode.cpp is not under src/):
  the first use that is a projection with the given \<open>_con\<close>, or null.
\<close>

definition proj_out_or_null :: "graph \<Rightarrow> node_ptr \<Rightarrow> nat \<Rightarrow> node_ptr option" where
  "proj_out_or_null g n which_proj = List.find (\<lambda>p. is_Proj_con g p which_proj) (raw_outs g n)"

text \<open>
  Modelled from the spec: \<open>Node::unique_ctrl_out_or_null\<close> (opto/node.cpp is not under src/):
  the control-flow use other than the node itself if the out array holds exactly one such entry,
  null if none or more than one.
\<close>

definition unique_ctrl_out_or_null :: "graph \<Rightarrow> node_ptr \<Rightarrow> node_ptr option" where
  "unique_ctrl_out_or_null g n =
     (case filter (\<lambda>use. is_CFG g use \<and> use \<noteq> n) (raw_outs g n) of
        [found] \<Rightarrow> Some found
      | _ \<Rightarrow> None)"

text \<open>
  Modelled from the spec: \<open>Compile::gvn_replace_by\<close> (opto/compile.cpp is not under src/).
  "Graph edit primitives: ... replace all uses of node A with node B": every input edge that
  points to \<open>n\<close> is set to \<open>nn\<close>.
\<close>

definition gvn_replace_by :: "graph \<Rightarrow> node_ptr \<Rightarrow> node_ptr option \<Rightarrow> graph" where
  "gvn_replace_by g n nn =
     map (\<lambda>use. use\<lparr>in_edges := map (\<lambda>e. if e = Some n then nn else e) (in_edges use)\<rparr>) g"

text \<open>
  Modelled from the spec: \<open>PhaseGVN::transform\<close> (opto/phaseX.cpp is not under src/).
  "Transform-and-intern operation: given a newly constructed node, return either that node or a
  pre-existing structurally-equal node." A node that was just constructed has no uses yet, so no
  edge of the graph changes; the result is the canonical node, here the node itself.
\<close>

definition transform :: "graph \<Rightarrow> node_ptr \<Rightarrow> graph \<times> node_ptr" where
  "transform g n = (g, n)"

subsection \<open>The worklist\<close>

text \<open>
  Modelled from the spec: \<open>Unique_Node_List\<close> (opto/node.hpp is not under src/). "A set of
  pending candidate nodes supporting push/pop/contains; a node may be pushed again after being
  popped." \<open>push\<close> appends a node that is not a member; \<open>pop\<close> takes the entry at the clock
  index, moves the last entry into its place and advances the clock.
\<close>

record worklist =
  items :: "node_ptr list"
  clock_index :: nat

definition worklist_empty :: worklist where
  "worklist_empty = \<lparr>items = [], clock_index = 0\<rparr>"

definition push :: "worklist \<Rightarrow> node_ptr \<Rightarrow> worklist" where
  "push wl b = (if b \<in> set (items wl) then wl else wl\<lparr>items := items wl @ [b]\<rparr>)"

definition pop :: "worklist \<Rightarrow> node_ptr \<times> worklist" where
  "pop wl =
     (let c = (if clock_index wl \<ge> length (items wl) then 0 else clock_index wl);
          b = items wl ! c;
          rest = butlast (items wl);
          items' = (if c < length rest then rest[c := last (items wl)] else rest)
      in (b, \<lparr>items = items', clock_index = (if items' \<noteq> [] then c + 1 else c)\<rparr>))"

subsection \<open>The pass\<close>

definition is_append_char_call :: "graph \<Rightarrow> node_ptr \<Rightarrow> bool" where
  "is_append_char_call g call =
     (case call_method g call of
        None \<Rightarrow> False
      | Some m \<Rightarrow>
          if holder m \<noteq> StringBuilder_klass \<and> holder m \<noteq> StringBuffer_klass then False
          else if name m \<noteq> append_name then False
          else let char_sig = char_signature;
                   char_sig = (if holder m = StringBuffer_klass then char_signature else char_sig)
               in signature m = char_sig)"

definition is_append_char_char_call :: "graph \<Rightarrow> node_ptr \<Rightarrow> bool" where
  "is_append_char_char_call g call =
     (case call_method g call of
        None \<Rightarrow> False
      | Some m \<Rightarrow>
          if holder m \<noteq> StringBuilder_klass \<and> holder m \<noteq> StringBuffer_klass then False
          else if name m \<noteq> append_name then False
          else let char_char_sig = char_char_signature;
                   char_char_sig = (if holder m = StringBuffer_klass then char_char_signature
                                    else char_char_sig)
               in signature m = char_char_sig)"

text \<open>
  The loop of \<open>find_next_append_char_call\<close> over the uses of the control projection; it returns
  at the first use that leads to an \<open>append(char)\<close> call on the same receiver edge.
\<close>

fun find_next_loop :: "graph \<Rightarrow> node_ptr \<Rightarrow> node_ptr list \<Rightarrow> node_ptr option" where
  "find_next_loop g call [] = None"
| "find_next_loop g call (use # rest) =
     (if is_Proj_con g use Control then
        (case unique_ctrl_out_or_null g use of
           None \<Rightarrow> find_next_loop g call rest
         | Some next_ctrl \<Rightarrow>
             if is_CallStaticJava g next_ctrl then
               (if is_append_char_call g next_ctrl \<and>
                   node_in g next_ctrl Parms = node_in g call Parms
                then Some next_ctrl
                else find_next_loop g call rest)
             else find_next_loop g call rest)
      else find_next_loop g call rest)"

definition find_next_append_char_call :: "graph \<Rightarrow> node_ptr \<Rightarrow> node_ptr option" where
  "find_next_append_char_call g call =
     (case proj_out_or_null g call Control of
        None \<Rightarrow> None
      | Some ctrl \<Rightarrow> find_next_loop g call (raw_outs g ctrl))"

text \<open>
  \<open>create_append_char_char_call\<close>: the new node takes the next free \<open>_idx\<close>. The result of
  \<open>transform\<close> is dropped, as in the source, and the new node is returned.
\<close>

definition create_append_char_char_call ::
  "env \<Rightarrow> graph \<Rightarrow> node_ptr \<Rightarrow> node_ptr option \<Rightarrow> node_ptr option \<Rightarrow> node_ptr option
     \<Rightarrow> (graph \<times> node_ptr) option" where
  "create_append_char_char_call e g original_call receiver char1 char2 =
     (let resolved =
            (case find_method e StringBuilder_klass append_name char_char_signature of
               Some m \<Rightarrow> Some m
             | None \<Rightarrow> find_method e StringBuffer_klass append_name char_char_signature)
      in case resolved of
           None \<Rightarrow> None
         | Some m \<Rightarrow>
             let new_call = length g;
                 g' = g @ [\<lparr>nclass = CallStaticJava (Some m),
                            in_edges = [node_in g original_call 0,
                                        node_in g original_call 1,
                                        node_in g original_call 2,
                                        node_in g original_call 3,
                                        node_in g original_call 4,
                                        receiver, char1, char2]\<rparr>]
             in Some (fst (transform g' new_call), new_call))"

definition optimize_append_char_call ::
  "env \<Rightarrow> graph \<Rightarrow> node_ptr \<Rightarrow> worklist \<Rightarrow> graph \<times> worklist" where
  "optimize_append_char_call e g call wl =
     (let receiver = node_in g call Parms;
          char1 = node_in g call (Parms + 1)
      in case find_next_append_char_call g call of
           None \<Rightarrow> (g, wl)
         | Some next_call \<Rightarrow>
             let char2 = node_in g next_call (Parms + 1)
             in case create_append_char_char_call e g call receiver char1 char2 of
                  None \<Rightarrow> (g, wl)
                | Some (g1, new_call) \<Rightarrow>
                    let g2 = gvn_replace_by g1 call (Some new_call);
                        g3 = gvn_replace_by g2 next_call (node_in g2 next_call Parms)
                    in (g3, push wl new_call))"


subsection \<open>Termination of the worklist loop\<close>

text \<open>
  A rewrite changes input edges and adds one \<open>append(char, char)\<close> call; it never changes the
  class or the method of a node. So the nodes that pass the loop's re-validation are the same
  before and after, and the node pushed back is not one of them: each iteration either drops
  an entry or trades a validated entry for one that will be dropped.
\<close>

lemma length_gvn_replace_by: "length (gvn_replace_by g n nn) = length g"
  by (simp add: gvn_replace_by_def)

lemma nclass_gvn_replace_by:
  "k < length g \<Longrightarrow> nclass (gvn_replace_by g n nn ! k) = nclass (g ! k)"
  by (simp add: gvn_replace_by_def)

lemma call_method_gvn_replace_by: "call_method (gvn_replace_by g n nn) k = call_method g k"
  by (simp add: call_method_def node_at_def length_gvn_replace_by nclass_gvn_replace_by)

lemma is_CallStaticJava_gvn_replace_by:
  "is_CallStaticJava (gvn_replace_by g n nn) k = is_CallStaticJava g k"
  by (simp add: is_CallStaticJava_def node_at_def length_gvn_replace_by nclass_gvn_replace_by)

lemma is_append_char_call_gvn_replace_by:
  "is_append_char_call (gvn_replace_by g n nn) k = is_append_char_call g k"
  by (simp add: is_append_char_call_def call_method_gvn_replace_by)

definition candidate :: "graph \<Rightarrow> node_ptr \<Rightarrow> bool" where
  "candidate g n = (is_CallStaticJava g n \<and> is_append_char_call g n)"

lemma candidate_gvn_replace_by: "candidate (gvn_replace_by g n nn) k = candidate g k"
  by (simp add: candidate_def is_CallStaticJava_gvn_replace_by is_append_char_call_gvn_replace_by)

lemma create_SomeD:
  assumes "create_append_char_char_call e g c r c1 c2 = Some (g1, new_call)"
  shows "new_call = length g \<and>
         (\<exists>m. signature m = char_char_signature \<and>
              g1 = g @ [\<lparr>nclass = CallStaticJava (Some m),
                          in_edges = [node_in g c 0, node_in g c 1, node_in g c 2, node_in g c 3,
                                      node_in g c 4, r, c1, c2]\<rparr>])"
  using assms
  by (auto simp: create_append_char_char_call_def find_method_def transform_def Let_def
      split: option.splits if_splits)

lemma candidate_create:
  assumes "create_append_char_char_call e g c r c1 c2 = Some (g1, new_call)"
  shows "candidate g1 k = candidate g k"
proof -
  from create_SomeD[OF assms] obtain m where
    m: "signature m = char_char_signature" and
    g1: "g1 = g @ [\<lparr>nclass = CallStaticJava (Some m),
                          in_edges = [node_in g c 0, node_in g c 1, node_in g c 2, node_in g c 3,
                                      node_in g c 4, r, c1, c2]\<rparr>]"
    by blast
  consider "k < length g" | "k = length g" | "length g < k" by arith
  then show ?thesis
  proof cases
    case 1
    then show ?thesis
      by (simp add: g1 candidate_def is_CallStaticJava_def is_append_char_call_def call_method_def
          node_at_def nth_append)
  next
    case 2
    then show ?thesis
      using m
      by (simp add: g1 candidate_def is_CallStaticJava_def is_append_char_call_def call_method_def
          node_at_def nth_append)
  next
    case 3
    then show ?thesis
      by (simp add: g1 candidate_def is_CallStaticJava_def is_append_char_call_def call_method_def
          node_at_def nth_append)
  qed
qed

lemma optimize_append_char_call_cases:
  "optimize_append_char_call e g call wl = (g, wl) \<or>
   (\<exists>next_call g1.
      find_next_append_char_call g call = Some next_call \<and>
      create_append_char_char_call e g call (node_in g call Parms) (node_in g call (Parms + 1))
        (node_in g next_call (Parms + 1)) = Some (g1, length g) \<and>
      optimize_append_char_call e g call wl =
        (gvn_replace_by (gvn_replace_by g1 call (Some (length g))) next_call
           (node_in (gvn_replace_by g1 call (Some (length g))) next_call Parms),
         push wl (length g)))"
proof (cases "find_next_append_char_call g call")
  case None
  then show ?thesis by (simp add: optimize_append_char_call_def)
next
  case (Some next_call)
  show ?thesis
  proof (cases "create_append_char_char_call e g call (node_in g call Parms)
                  (node_in g call (Parms + 1)) (node_in g next_call (Parms + 1))")
    case None
    with Some show ?thesis by (simp add: optimize_append_char_call_def)
  next
    case (Some p)
    obtain g1 nc where p: "p = (g1, nc)" by (cases p)
    with Some create_SomeD[of e g call _ _ _ g1 nc] have "nc = length g" by simp
    with Some p \<open>find_next_append_char_call g call = Some next_call\<close> show ?thesis
      by (simp add: optimize_append_char_call_def Let_def)
  qed
qed

lemma candidate_optimize_append_char_call:
  "candidate (fst (optimize_append_char_call e g call wl)) k = candidate g k"
  using optimize_append_char_call_cases[of e g call wl]
  by (auto simp: candidate_gvn_replace_by candidate_create)

definition weight :: "graph \<Rightarrow> node_ptr list \<Rightarrow> nat" where
  "weight g xs = sum_list (map (\<lambda>n. if candidate g n then 2 else 1) xs)"

lemma weight_cong: "(\<And>k. candidate g' k = candidate g k) \<Longrightarrow> weight g' xs = weight g xs"
  by (simp add: weight_def)

lemma weight_mset: "mset xs = mset ys \<Longrightarrow> weight g xs = weight g ys"
  unfolding weight_def
  by (metis mset_map sum_mset_sum_list)

lemma pop_mset:
  assumes "items wl \<noteq> []"
  shows "mset (items wl) = add_mset (fst (pop wl)) (mset (items (snd (pop wl))))"
proof -
  obtain rest l where il: "items wl = rest @ [l]"
    using assms by (metis append_butlast_last_id)
  define c where "c = (if clock_index wl \<ge> length (items wl) then 0 else clock_index wl)"
  have c: "c < length (items wl)" using assms by (auto simp: c_def)
  have f: "fst (pop wl) = items wl ! c"
    by (simp add: pop_def Let_def c_def)
  have s: "items (snd (pop wl)) = (if c < length rest then rest[c := l] else rest)"
    using il by (simp add: pop_def Let_def c_def)
  show ?thesis
  proof (cases "c < length rest")
    case True
    then have "mset (rest[c := l]) + {#rest ! c#} = mset rest + {#l#}"
      by (simp add: mset_update insert_DiffM nth_mem_mset)
    then show ?thesis using True il
      by (simp add: f s nth_append)
  next
    case False
    with c il have "c = length rest" by simp
    then show ?thesis using il
      by (simp add: f s nth_append)
  qed
qed

lemma weight_pop:
  assumes "items wl \<noteq> []"
  shows "weight g (items wl) =
         (if candidate g (fst (pop wl)) then 2 else 1) + weight g (items (snd (pop wl)))"
proof -
  have "mset (items wl) = mset (fst (pop wl) # items (snd (pop wl)))"
    using pop_mset[OF assms] by simp
  then have "weight g (items wl) = weight g (fst (pop wl) # items (snd (pop wl)))"
    by (rule weight_mset)
  then show ?thesis by (simp add: weight_def)
qed

lemma weight_push: "weight g (items (push wl b)) \<le> weight g (items wl) + (if candidate g b then 2 else 1)"
  by (simp add: push_def weight_def)

lemma not_candidate_fresh: "\<not> candidate g (length g)"
  by (simp add: candidate_def is_CallStaticJava_def node_at_def)

lemma weight_optimize_append_char_call:
  "weight (fst (optimize_append_char_call e g call wl)) (items (snd (optimize_append_char_call e g call wl)))
     \<le> weight g (items wl) + 1"
proof -
  have eq: "weight (fst (optimize_append_char_call e g call wl)) xs = weight g xs" for xs
    by (rule weight_cong) (rule candidate_optimize_append_char_call)
  from optimize_append_char_call_cases[of e g call wl]
  have "items (snd (optimize_append_char_call e g call wl)) = items wl \<or>
        items (snd (optimize_append_char_call e g call wl)) = items (push wl (length g))"
    by auto
  then show ?thesis
    using weight_push[of g wl "length g"] not_candidate_fresh[of g]
    by (auto simp: eq)
qed


text \<open>
  The \<open>while (worklist.size() > 0)\<close> loop of \<open>optimize\<close>: pop a node, re-validate it, try to
  fuse it with its successor.
\<close>

function process_worklist :: "env \<Rightarrow> graph \<Rightarrow> worklist \<Rightarrow> graph" where
  "process_worklist e g wl =
     (if items wl = [] then g
      else let n = fst (pop wl); wl' = snd (pop wl) in
        if is_CallStaticJava g n then
          (if is_append_char_call g n then
             process_worklist e (fst (optimize_append_char_call e g n wl'))
                                (snd (optimize_append_char_call e g n wl'))
           else process_worklist e g wl')
        else process_worklist e g wl')"
  by pat_completeness auto
termination
proof (relation "measure (\<lambda>(e, g, wl). weight g (items wl))")
  show "wf (measure (\<lambda>(e, g, wl). weight g (items wl)))" by simp
next
  fix e :: env and g wl n wl'
  assume a: "items wl \<noteq> []" "n = fst (pop wl)" "wl' = snd (pop wl)" "is_CallStaticJava g n"
    "is_append_char_call g n"
  then have "candidate g n" by (simp add: candidate_def)
  with weight_pop[OF a(1), of g] a(2,3) have "weight g (items wl) = 2 + weight g (items wl')"
    by simp
  with weight_optimize_append_char_call[of e g n wl']
  show "((e, fst (optimize_append_char_call e g n wl'), snd (optimize_append_char_call e g n wl')), (e, g, wl))
        \<in> measure (\<lambda>(e, g, wl). weight g (items wl))"
    by (simp add: case_prod_beta)
next
  fix e :: env and g wl n wl'
  assume a: "items wl \<noteq> []" "n = fst (pop wl)" "wl' = snd (pop wl)"
  with weight_pop[OF a(1), of g] show "((e, g, wl'), (e, g, wl)) \<in> measure (\<lambda>(e, g, wl). weight g (items wl))"
    by simp
next
  fix e :: env and g wl n wl'
  assume a: "items wl \<noteq> []" "n = fst (pop wl)" "wl' = snd (pop wl)"
  with weight_pop[OF a(1), of g] show "((e, g, wl'), (e, g, wl)) \<in> measure (\<lambda>(e, g, wl). weight g (items wl))"
    by simp
qed

declare process_worklist.simps [simp del]


text \<open>
  The scan of \<open>optimize\<close>: for every \<open>i\<close> below \<open>C->unique()\<close>, the node \<open>root()->find(i)\<close>
  is pushed when it is not null, is a static Java call and is an \<open>append(char)\<close> call.
\<close>

definition populate_worklist :: "env \<Rightarrow> graph \<Rightarrow> worklist" where
  "populate_worklist e g =
     foldl (\<lambda>wl i.
              case find_node e g (root e) i of
                None \<Rightarrow> wl
              | Some n \<Rightarrow>
                  if is_CallStaticJava g n then
                    (if is_append_char_call g n then push wl n else wl)
                  else wl)
           worklist_empty [0..<length g]"

definition optimize :: "env \<Rightarrow> graph \<Rightarrow> graph" where
  "optimize e g =
     (if \<not> OptimizeStringConcat e then g
      else process_worklist e g (populate_worklist e g))"

section \<open>Specification-level notions and example inputs\<close>

subsection \<open>The folding rule in the specification's words\<close>

text \<open>
  A graph constant that denotes a known immutable string: a constant node whose type is an
  object pointer with a constant object that has a content buffer. It exposes the buffer and the
  encoding discriminator.
\<close>

definition known_string :: "str_node \<Rightarrow> (jbyte list \<times> jbyte) option" where
  "known_string s =
     (if str_is_Con s then
        (case str_bottom_type s of
           TypeOopPtr (Some inst) \<Rightarrow>
             (case value_field inst of
                ciTypeArray buf \<Rightarrow> Some (buf, coder_field inst)
              | _ \<Rightarrow> None)
         | _ \<Rightarrow> None)
      else None)"

definition constant_integer :: "index_node \<Rightarrow> jint option" where
  "constant_integer i =
     (if index_is_Con i \<and> is_con (index_bottom_type i) then Some (get_con (index_bottom_type i))
      else None)"

text \<open>
  The decoded character count: the buffer length for the single-byte encoding, half of it for
  the double-byte encoding.
\<close>

definition decoded_length :: "jbyte list \<Rightarrow> jbyte \<Rightarrow> int" where
  "decoded_length buf coder =
     (if coder = CODER_LATIN1 then int (length buf) else int (length buf) div 2)"

definition can_fold :: "StringIndexer \<Rightarrow> bool" where
  "can_fold si =
     (case known_string (str si) of
        None \<Rightarrow> False
      | Some (buf, coder) \<Rightarrow>
          (case constant_integer (index si) of
             None \<Rightarrow> False
           | Some i \<Rightarrow> 0 \<le> sint i \<and> sint i < decoded_length buf coder))"

text \<open>The encoding discriminator of a string is one of the two coders.\<close>

definition valid_coder :: "StringIndexer \<Rightarrow> bool" where
  "valid_coder si =
     (case const_oop (str si) of
        None \<Rightarrow> True
      | Some inst \<Rightarrow> coder_field inst = CODER_LATIN1 \<or> coder_field inst = CODER_UTF16)"

text \<open>
  The 16-bit code unit at a character position of a double-byte buffer, in the host's byte
  order: on a little-endian host the byte at the even position is the low byte.
\<close>

definition code_unit :: "bool \<Rightarrow> jbyte list \<Rightarrow> nat \<Rightarrow> jchar" where
  "code_unit little_endian buf i =
     (if little_endian then word_cat (buf ! (2 * i + 1)) (buf ! (2 * i))
      else word_cat (buf ! (2 * i)) (buf ! (2 * i + 1)))"

subsection \<open>Example strings and indices\<close>

definition latin1_string :: "jbyte list \<Rightarrow> str_node" where
  "latin1_string buf =
     \<lparr>str_is_Con = True,
      str_bottom_type = TypeOopPtr (Some \<lparr>value_field = ciTypeArray buf, coder_field = CODER_LATIN1\<rparr>)\<rparr>"

definition utf16_string :: "jbyte list \<Rightarrow> str_node" where
  "utf16_string buf =
     \<lparr>str_is_Con = True,
      str_bottom_type = TypeOopPtr (Some \<lparr>value_field = ciTypeArray buf, coder_field = CODER_UTF16\<rparr>)\<rparr>"

definition int_constant :: "jint \<Rightarrow> index_node" where
  "int_constant i = \<lparr>index_is_Con = True, index_bottom_type = \<lparr>lo = i, hi = i\<rparr>\<rparr>"

subsection \<open>Example graphs\<close>

definition append_char_method :: ciMethod where
  "append_char_method =
     \<lparr>holder = StringBuilder_klass, name = append_name, signature = char_signature\<rparr>"

definition data_node :: node where
  "data_node = \<lparr>nclass = OtherData, in_edges = []\<rparr>"

definition proj_node :: "nat \<Rightarrow> node_ptr \<Rightarrow> node" where
  "proj_node con def = \<lparr>nclass = Proj con, in_edges = [Some def]\<rparr>"

text \<open>
  An \<open>append(char)\<close> call with the given control input, receiver and character argument; its
  I/O, memory, frame and return inputs are the nodes 1 to 4.
\<close>

definition append_call :: "node_ptr \<Rightarrow> node_ptr \<Rightarrow> node_ptr \<Rightarrow> node" where
  "append_call ctrl receiver ch =
     \<lparr>nclass = CallStaticJava (Some append_char_method),
      in_edges = [Some ctrl, Some 1, Some 2, Some 3, Some 4, Some receiver, Some ch]\<rparr>"

text \<open>
  Nodes 0 to 9 of every example: the start node, the I/O, memory, frame and return values,
  two builder objects (5 and 6) and the characters 'a', 'b', 'c' (7, 8, 9).
\<close>

definition base_nodes :: graph where
  "base_nodes =
     [\<lparr>nclass = OtherCFG, in_edges = []\<rparr>,
      data_node, data_node, data_node, data_node,
      data_node, data_node,
      data_node, data_node, data_node]"

text \<open>
  Three appends of 'a', 'b', 'c' to builder 5 in a row: calls 10, 13 and 16, each reached from
  the one before through the control projection of its control projection.
\<close>

definition three_appends :: graph where
  "three_appends = base_nodes @
     [append_call 0 5 7, proj_node 0 10, proj_node 0 11,
      append_call 12 5 8, proj_node 0 13, proj_node 0 14,
      append_call 15 5 9, proj_node 0 16,
      \<lparr>nclass = OtherCFG, in_edges = [Some 17]\<rparr>]"





text \<open>
  Two chains that leave the start node. Calls 10 and 13 append 'a' and 'b' to builder 6; node
  14 is the result projection of call 13 and node 15 a value computed from it. Calls 16 and 19
  append to builder 5, call 19 the value 15. The exit, node 20, hangs off the control
  projection 17 of call 16: no input edge leads from it to the calls 10, 13 and 19.
\<close>

definition hidden_pair :: graph where
  "hidden_pair = base_nodes @
     [append_call 0 6 7, proj_node 0 10, proj_node 0 11,
      append_call 12 6 8, proj_node 5 13,
      \<lparr>nclass = OtherData, in_edges = [Some 14]\<rparr>,
      append_call 0 5 9, proj_node 0 16, proj_node 0 17,
      append_call 18 5 15,
      \<lparr>nclass = OtherCFG, in_edges = [Some 17]\<rparr>]"

text \<open>
  The search used in the examples: \<open>start->find(i)\<close> walks the input edges from \<open>start\<close>,
  depth first, and returns the node with \<open>_idx\<close> \<open>i\<close> when it meets it, null when the walk
  ends without it. Every step takes one pending node, so one step more than the graph has input
  edges is enough.
\<close>

definition input_targets :: "graph \<Rightarrow> node_ptr \<Rightarrow> node_ptr list" where
  "input_targets g n =
     (case node_at g n of
        None \<Rightarrow> []
      | Some nd \<Rightarrow> concat (map (\<lambda>e. case e of None \<Rightarrow> [] | Some m \<Rightarrow> [m]) (in_edges nd)))"

fun search_inputs :: "nat \<Rightarrow> graph \<Rightarrow> node_ptr list \<Rightarrow> node_ptr list \<Rightarrow> nat \<Rightarrow> bool" where
  "search_inputs 0 g seen todo i = False"
| "search_inputs (Suc k) g seen [] i = False"
| "search_inputs (Suc k) g seen (n # todo) i =
     (if n = i then True
      else if n \<in> set seen then search_inputs k g seen todo i
      else search_inputs k g (n # seen) (input_targets g n @ todo) i)"

definition find_by_inputs :: "graph \<Rightarrow> node_ptr \<Rightarrow> nat \<Rightarrow> node_ptr option" where
  "find_by_inputs g start i =
     (if i < length g \<and> search_inputs (Suc (length (concat (map in_edges g)))) g [] [start] i
      then Some i else None)"

text \<open>
  The example contexts: the flag is on, the search follows input edges, and the root is
  node 18, the exit of \<open>three_appends\<close>. In the first one \<open>append(char, char)\<close> resolves on
  the builder class, in the second one on neither class.
\<close>

definition resolving_env :: env where
  "resolving_env =
     \<lparr>OptimizeStringConcat = True,
      klass_methods = (\<lambda>k. if k = StringBuilder_klass
                            then [(append_name, char_signature), (append_name, char_char_signature)]
                            else []),
      root = 18,
      find_node = find_by_inputs\<rparr>"

definition unresolving_env :: env where
  "unresolving_env =
     \<lparr>OptimizeStringConcat = True,
      klass_methods = (\<lambda>k. if k = StringBuilder_klass \<or> k = StringBuffer_klass
                            then [(append_name, char_signature)]
                            else []),
      root = 18,
      find_node = find_by_inputs\<rparr>"

subsection \<open>The successor search in the specification's words\<close>


subsection \<open>The rewrite step\<close>

text \<open>
  The part of \<open>optimize_append_char_call\<close> up to the edits: the successor found for the call
  and the node synthesized for the pair, when there are both.
\<close>

definition fusion_of :: "env \<Rightarrow> graph \<Rightarrow> node_ptr \<Rightarrow> (node_ptr \<times> graph \<times> node_ptr) option" where
  "fusion_of e g call =
     (case find_next_append_char_call g call of
        None \<Rightarrow> None
      | Some next_call \<Rightarrow>
          (case create_append_char_char_call e g call (node_in g call Parms)
                  (node_in g call (Parms + 1)) (node_in g next_call (Parms + 1)) of
             None \<Rightarrow> None
           | Some (g1, new_call) \<Rightarrow> Some (next_call, g1, new_call)))"

definition fused_ab :: node where
  "fused_ab =
     \<lparr>nclass = CallStaticJava
                 (Some \<lparr>holder = StringBuilder_klass, name = append_name,
                        signature = char_char_signature\<rparr>),
      in_edges = [Some 0, Some 1, Some 2, Some 3, Some 4, Some 5, Some 7, Some 8]\<rparr>"

text \<open>The graph the pass makes of \<open>three_appends\<close>.\<close>

definition three_appends_fused :: graph where
  "three_appends_fused = base_nodes @
     [append_call 0 5 7, proj_node 0 19, proj_node 0 11,
      append_call 12 5 8, proj_node 0 5, proj_node 0 14,
      append_call 15 5 9, proj_node 0 16,
      \<lparr>nclass = OtherCFG, in_edges = [Some 17]\<rparr>,
      fused_ab]"

subsection \<open>Graphs with plain receivers\<close>

text \<open>
  A receiver edge is a plain value when it is null or points at a node of the graph that is
  neither a call nor a control projection.
\<close>

definition plain_value :: "graph \<Rightarrow> node_ptr option \<Rightarrow> bool" where
  "plain_value g r =
     (case r of
        None \<Rightarrow> True
      | Some n \<Rightarrow>
          (case node_at g n of
             None \<Rightarrow> False
           | Some nd \<Rightarrow>
               (case nclass nd of
                  CallStaticJava m \<Rightarrow> False
                | Proj c \<Rightarrow> c \<noteq> Control
                | OtherCFG \<Rightarrow> True
                | OtherData \<Rightarrow> True)))"

text \<open>
  The graphs on which repeated runs are compared: every projection has exactly one input, and
  the receiver edge of every single-character append call is a plain value.
\<close>

definition plain_receivers :: "graph \<Rightarrow> bool" where
  "plain_receivers g =
     list_all (\<lambda>n. case nclass (g ! n) of
                     Proj c \<Rightarrow> length (in_edges (g ! n)) = 1
                   | CallStaticJava m \<Rightarrow>
                       is_append_char_call g n \<longrightarrow> plain_value g (node_in g n Parms)
                   | _ \<Rightarrow> True)
              [0..<length g]"



text \<open>The two-character append target resolves on the builder class or on the buffer class.\<close>

definition resolves :: "env \<Rightarrow> bool" where
  "resolves e =
     (find_method e StringBuilder_klass append_name char_char_signature \<noteq> None \<or>
      find_method e StringBuffer_klass append_name char_char_signature \<noteq> None)"

text \<open>
  The scan reaches every single-character append call of the graph: \<open>root()->find(n)\<close> is the
  node \<open>n\<close> for each of them.
\<close>

definition scan_finds_calls :: "env \<Rightarrow> graph \<Rightarrow> bool" where
  "scan_finds_calls e g =
     list_all (\<lambda>n. candidate g n \<longrightarrow> find_node e g (root e) n = Some n) [0..<length g]"

subsection \<open>The rewrites of a run\<close>

text \<open>
  The pairs \<open>(call, next_call)\<close> that the worklist loop rewrites, in the order of the
  rewrites. The recursion is that of \<open>process_worklist\<close>; a pair is recorded exactly when
  \<open>optimize_append_char_call\<close> reaches its edits.
\<close>

function fused_pairs :: "env \<Rightarrow> graph \<Rightarrow> worklist \<Rightarrow> (node_ptr \<times> node_ptr) list" where
  "fused_pairs e g wl =
     (if items wl = [] then []
      else let n = fst (pop wl); wl' = snd (pop wl) in
        if is_CallStaticJava g n then
          (if is_append_char_call g n then
             (case fusion_of e g n of
                None \<Rightarrow> []
              | Some (next_call, g1, new_call) \<Rightarrow> [(n, next_call)]) @
             fused_pairs e (fst (optimize_append_char_call e g n wl'))
                           (snd (optimize_append_char_call e g n wl'))
           else fused_pairs e g wl')
        else fused_pairs e g wl')"
  by pat_completeness auto
termination
proof (relation "measure (\<lambda>(e, g, wl). weight g (items wl))")
  show "wf (measure (\<lambda>(e, g, wl). weight g (items wl)))" by simp
next
  fix e :: env and g wl n wl'
  assume a: "items wl \<noteq> []" "n = fst (pop wl)" "wl' = snd (pop wl)" "is_CallStaticJava g n"
    "is_append_char_call g n"
  then have "candidate g n" by (simp add: candidate_def)
  with weight_pop[OF a(1), of g] a(2,3) have "weight g (items wl) = 2 + weight g (items wl')"
    by simp
  with weight_optimize_append_char_call[of e g n wl']
  show "((e, fst (optimize_append_char_call e g n wl'), snd (optimize_append_char_call e g n wl')), (e, g, wl))
        \<in> measure (\<lambda>(e, g, wl). weight g (items wl))"
    by (simp add: case_prod_beta)
next
  fix e :: env and g wl n wl'
  assume a: "items wl \<noteq> []" "n = fst (pop wl)" "wl' = snd (pop wl)"
  with weight_pop[OF a(1), of g] show "((e, g, wl'), (e, g, wl)) \<in> measure (\<lambda>(e, g, wl). weight g (items wl))"
    by simp
next
  fix e :: env and g wl n wl'
  assume a: "items wl \<noteq> []" "n = fst (pop wl)" "wl' = snd (pop wl)"
  with weight_pop[OF a(1), of g] show "((e, g, wl'), (e, g, wl)) \<in> measure (\<lambda>(e, g, wl). weight g (items wl))"
    by simp
qed

declare fused_pairs.simps [simp del]

text \<open>The pairs that one run of \<open>optimize\<close> rewrites.\<close>

definition optimize_fusions :: "env \<Rightarrow> graph \<Rightarrow> (node_ptr \<times> node_ptr) list" where
  "optimize_fusions e g =
     (if \<not> OptimizeStringConcat e then []
      else fused_pairs e g (populate_worklist e g))"


subsection \<open>The appended characters in control order\<close>

text \<open>
  The control successors of a node are its control-flow uses that have it as control input.
  The walk lists the nodes that control reaches from a start node, each node before its
  successors, down to the given depth.
\<close>

definition control_successors :: "graph \<Rightarrow> node_ptr \<Rightarrow> node_ptr list" where
  "control_successors g n =
     filter (\<lambda>u. is_CFG g u \<and> node_in g u Control = Some n) (remdups (raw_outs g n))"

fun control_walk :: "nat \<Rightarrow> graph \<Rightarrow> node_ptr \<Rightarrow> node_ptr list" where
  "control_walk 0 g n = []"
| "control_walk (Suc k) g n = n # concat (map (control_walk k g) (control_successors g n))"

definition calls_in_control_order :: "graph \<Rightarrow> node_ptr \<Rightarrow> node_ptr list" where
  "calls_in_control_order g start = filter (is_CallStaticJava g) (control_walk (length g) g start)"

text \<open>
  The character arguments of one call: one for \<open>append(char)\<close>, two for
  \<open>append(char, char)\<close>. The specification's "total decoded output" of a graph is the
  sequence of the character arguments of its append calls in control order.
\<close>

definition appended_chars :: "graph \<Rightarrow> node_ptr \<Rightarrow> node_ptr option list" where
  "appended_chars g c =
     (if is_append_char_call g c then [node_in g c (Parms + 1)]
      else if is_append_char_char_call g c then [node_in g c (Parms + 1), node_in g c (Parms + 2)]
      else [])"

definition decoded_output :: "graph \<Rightarrow> node_ptr \<Rightarrow> node_ptr option list" where
  "decoded_output g start = concat (map (appended_chars g) (calls_in_control_order g start))"

section \<open>Properties of the constant-index folder\<close>

subsection \<open>When a read can be folded\<close>

lemmas indexer_defs =
  can_optimize_def is_constant_string_def is_valid_range_def const_oop_def
  known_string_def constant_integer_def decoded_length_def can_fold_def valid_coder_def

lemma coders_distinct: "CODER_LATIN1 \<noteq> CODER_UTF16"
  by (simp add: CODER_LATIN1_def CODER_UTF16_def)

lemma can_optimize_refines:
  assumes "valid_coder si"
  shows "map_option fst (can_optimize si) = Some (can_fold si)"
  using assms coders_distinct
  by (auto simp: indexer_defs Let_def word_sless_alt
      split: str_type.splits option.splits ciObject.splits)

text \<open>
  C5: \<open>can_optimize\<close> answers true if and only if the string operand is a graph constant
  denoting a known immutable string, the index operand is a graph constant integer, and the
  index lies in \<open>[0, decoded_length)\<close>, where the decoded length is the buffer length for the
  single-byte encoding and half the buffer length for the double-byte encoding. In particular
  index \<open>-1\<close> and index \<open>decoded_length\<close> give false for any constant string.
\<close>

theorem can_optimize_iff_can_fold:
  assumes "valid_coder si"
  shows "map_option fst (can_optimize si) = Some (can_fold si) \<and>
         (known_string (str si) = Some (buf, coder) \<and> constant_integer (index si) = Some i \<and>
            (sint i = - 1 \<or> sint i = decoded_length buf coder)
          \<longrightarrow> map_option fst (can_optimize si) = Some False)"
proof -
  have r: "map_option fst (can_optimize si) = Some (can_fold si)"
    using assms by (rule can_optimize_refines)
  have "\<not> can_fold si"
    if "known_string (str si) = Some (buf, coder)" "constant_integer (index si) = Some i"
       "sint i = - 1 \<or> sint i = decoded_length buf coder"
    using that by (auto simp: can_fold_def)
  with r show ?thesis by auto
qed

theorem can_optimize_iff_can_fold_witness:
  "valid_coder (StringIndexer_new (latin1_string [0x41, 0x42]) (int_constant 1)) \<and>
   map_option fst (can_optimize (StringIndexer_new (latin1_string [0x41, 0x42]) (int_constant 1))) = Some True \<and>
   map_option fst (can_optimize (StringIndexer_new (latin1_string [0x41, 0x42]) (int_constant (- 1)))) = Some False \<and>
   map_option fst (can_optimize (StringIndexer_new (utf16_string [0x41, 0, 0x42, 0]) (int_constant 2))) = Some False"
proof -
  let ?s1 = "StringIndexer_new (latin1_string [0x41, 0x42]) (int_constant 1)"
  let ?s2 = "StringIndexer_new (latin1_string [0x41, 0x42]) (int_constant (- 1))"
  let ?s3 = "StringIndexer_new (utf16_string [0x41, 0, 0x42, 0]) (int_constant 2)"
  have v: "valid_coder ?s1" "valid_coder ?s2" "valid_coder ?s3"
    by (simp_all add: valid_coder_def const_oop_def StringIndexer_new_def latin1_string_def
        utf16_string_def)
  have f1: "can_fold ?s1"
    by (simp add: can_fold_def known_string_def constant_integer_def decoded_length_def
        StringIndexer_new_def latin1_string_def int_constant_def is_con_def get_con_def)
  have k2: "known_string (str ?s2) = Some ([0x41, 0x42], CODER_LATIN1)"
           "constant_integer (index ?s2) = Some (- 1)" "sint (- 1 :: jint) = - 1"
    by (simp_all add: known_string_def constant_integer_def
        StringIndexer_new_def latin1_string_def int_constant_def is_con_def get_con_def)
  have k3: "known_string (str ?s3) = Some ([0x41, 0, 0x42, 0], CODER_UTF16)"
           "constant_integer (index ?s3) = Some 2"
           "sint (2 :: jint) = decoded_length [0x41, 0, 0x42, 0] CODER_UTF16"
    using coders_distinct
    by (simp_all add: known_string_def constant_integer_def decoded_length_def
        StringIndexer_new_def utf16_string_def int_constant_def is_con_def get_con_def)
  from can_optimize_iff_can_fold[OF v(1)] f1
  have "map_option fst (can_optimize ?s1) = Some True" by simp
  moreover from can_optimize_iff_can_fold[OF v(2), of "[0x41, 0x42]" CODER_LATIN1 "- 1"] k2
  have "map_option fst (can_optimize ?s2) = Some False" by blast
  moreover from can_optimize_iff_can_fold[OF v(3), of "[0x41, 0, 0x42, 0]" CODER_UTF16 2] k3
  have "map_option fst (can_optimize ?s3) = Some False" by blast
  ultimately show ?thesis using v(1) by blast
qed

subsection \<open>What the fold computes\<close>

lemma ff_mask32: "(0xFF :: jint) = mask 8"
  by (simp add: mask_eq_exp_minus_1)

lemma widen_mask_byte: "(ucast ((scast (b::jbyte) :: jint) AND 0xFF) :: jchar) = ucast b"
  unfolding ff_mask32
proof (rule bit_word_eqI)
  fix n :: nat
  assume "n < LENGTH(16)"
  consider "n < 7" | "n = 7" | "8 \<le> n" by arith
  then show "bit (ucast ((scast b :: jint) AND mask 8) :: jchar) n = bit (ucast b :: jchar) n"
  proof cases
    case 1
    then show ?thesis by (simp add: bit_simps min_def)
  next
    case 2
    then show ?thesis by (simp add: bit_simps)
  next
    case 3
    then show ?thesis by (auto simp add: bit_simps dest: bit_imp_le_length)
  qed
qed

lemma char_mask_byte:
  "(ucast ((ucast (scast (b::jbyte) :: jchar) :: jint) AND 0xff) :: jchar) = ucast b"
  unfolding ff_mask32
proof (rule bit_word_eqI)
  fix n :: nat
  assume "n < LENGTH(16)"
  consider "n < 7" | "n = 7" | "8 \<le> n" by arith
  then show "bit (ucast ((ucast (scast b :: jchar) :: jint) AND mask 8) :: jchar) n
             = bit (ucast b :: jchar) n"
  proof cases
    case 1
    then show ?thesis by (simp add: bit_simps min_def)
  next
    case 2
    then show ?thesis by (simp add: bit_simps)
  next
    case 3
    then show ?thesis by (auto simp add: bit_simps dest: bit_imp_le_length)
  qed
qed

lemma combine_little:
  "(ucast ((ucast (ucast (x::jbyte) :: jchar) :: jint)
           OR push_bit 8 (ucast (ucast (y::jbyte) :: jchar) :: jint)) :: jchar) = word_cat y x"
  by (rule bit_word_eqI) (auto simp add: bit_simps dest: bit_imp_le_length)

lemma combine_big:
  "(ucast (push_bit 8 (ucast (ucast (x::jbyte) :: jchar) :: jint)
           OR (ucast (ucast (y::jbyte) :: jchar) :: jint)) :: jchar) = word_cat x y"
  by (rule bit_word_eqI) (auto simp add: bit_simps dest: bit_imp_le_length)

lemma uint_cat_bytes: "uint (word_cat (y::jbyte) (x::jbyte) :: jchar) = 256 * uint y + uint x"
proof -
  have bx: "0 \<le> uint x" "uint x < 256" using uint_lt2p[of x] by simp_all
  have by': "0 \<le> uint y" "uint y < 256" using uint_lt2p[of y] by simp_all
  have c: "concat_bit 8 (uint x) (uint y) = uint x mod 256 + uint y * 256"
    by (simp add: concat_bit_eq take_bit_eq_mod push_bit_eq_mult)
  have "uint (word_cat y x :: jchar) = concat_bit 8 (uint x) (uint y) mod 65536"
    unfolding word_cat_eq' uint_word_of_int by simp
  also have "\<dots> = 256 * uint y + uint x"
    unfolding c using bx by' by simp
  finally show ?thesis .
qed

lemma uint_code_unit:
  "uint (code_unit little_endian buf i) =
     (if little_endian then uint (buf ! (2 * i)) + 256 * uint (buf ! (2 * i + 1))
      else 256 * uint (buf ! (2 * i)) + uint (buf ! (2 * i + 1)))"
  by (simp add: code_unit_def uint_cat_bytes)

lemma can_optimize_TrueD:
  assumes "can_optimize si = Some (True, si')"
  shows "\<exists>inst buf. const_oop (str si) = Some inst \<and> value_field inst = ciTypeArray buf \<and>
           str si' = str si \<and> start_idx si' = get_con (index_bottom_type (index si)) \<and>
           0 \<le> sint (start_idx si') \<and>
           sint (start_idx si') < (if coder_field inst = CODER_UTF16 then int (length buf) div 2
                                   else int (length buf))"
  using assms
  by (auto simp: can_optimize_def is_constant_string_def is_valid_range_def const_oop_def Let_def
      word_sless_alt
      split: str_type.splits option.splits ciObject.splits if_splits)

lemma fold_facts:
  assumes "can_optimize si = Some (True, si')"
    and "known_string (str si) = Some (buf, coder)"
    and "constant_integer (index si) = Some i"
  shows "const_oop (str si') = Some \<lparr>value_field = ciTypeArray buf, coder_field = coder\<rparr>"
    and "start_idx si' = i" and "0 \<le> sint i"
    and "sint i < (if coder = CODER_UTF16 then int (length buf) div 2 else int (length buf))"
proof -
  from can_optimize_TrueD[OF assms(1)] obtain inst b where
    h: "const_oop (str si) = Some inst" "value_field inst = ciTypeArray b" "str si' = str si"
       "start_idx si' = get_con (index_bottom_type (index si))"
       "0 \<le> sint (start_idx si')"
       "sint (start_idx si') < (if coder_field inst = CODER_UTF16 then int (length b) div 2
                                else int (length b))"
    by blast
  from assms(2) h(1,2) have k: "b = buf" "coder_field inst = coder"
    by (auto simp: known_string_def const_oop_def
        split: if_splits str_type.splits option.splits ciObject.splits)
  from assms(3) h(4) show i: "start_idx si' = i"
    by (auto simp: constant_integer_def split: if_splits)
  from h(5) i show "0 \<le> sint i" by simp
  from h(6) i k show "sint i < (if coder = CODER_UTF16 then int (length buf) div 2 else int (length buf))"
    by (simp split: if_splits)
  from h(1,2,3) k show "const_oop (str si') = Some \<lparr>value_field = ciTypeArray buf, coder_field = coder\<rparr>"
    by (cases inst) simp
qed

lemma generate_latin1:
  assumes "const_oop (str s) = Some \<lparr>value_field = ciTypeArray buf, coder_field = CODER_LATIN1\<rparr>"
    and "0 \<le> sint (start_idx s)" and "sint (start_idx s) < int (length buf)"
  shows "generate_optimized_code little_endian s
         = Some (ucast (ucast (buf ! nat (sint (start_idx s))) :: jchar))"
  using assms
  by (simp add: generate_optimized_code_def byte_at_def widen_mask_byte Let_def)

lemma generate_utf16:
  assumes "const_oop (str s) = Some \<lparr>value_field = ciTypeArray buf, coder_field = CODER_UTF16\<rparr>"
    and "0 \<le> sint (start_idx s)" and "sint (start_idx s) < int (length buf) div 2"
  shows "generate_optimized_code little_endian s
         = Some (ucast (code_unit little_endian buf (nat (sint (start_idx s)))))"
proof -
  have r2: "sint (start_idx s) * 2 + 1 < int (length buf)" using assms(3) by linarith
  have n1: "nat (sint (start_idx s) * 2) = 2 * nat (sint (start_idx s))"
    using assms(2) by (simp add: nat_mult_distrib)
  have n2: "nat (sint (start_idx s) * 2 + 1) = 2 * nat (sint (start_idx s)) + 1"
    using assms(2) by (simp add: nat_add_distrib nat_mult_distrib)
  show ?thesis
    using assms r2 n1 n2 coders_distinct
    by (simp add: generate_optimized_code_def byte_at_def char_mask_byte combine_little
        combine_big code_unit_def Let_def)
qed

text \<open>
  C6: when \<open>can_optimize\<close> holds, the fold produces, for the single-byte encoding, the byte at
  position \<open>index\<close> zero-extended to character width (the constant string "AB" at index 1
  folds to 66); for the double-byte encoding it produces the 16-bit code unit that combines the
  bytes at positions \<open>2 * index\<close> and \<open>2 * index + 1\<close> in the host's byte order.
\<close>

theorem fold_reads_code_unit:
  assumes "can_optimize si = Some (True, si')"
    and "known_string (str si) = Some (buf, coder)"
    and "constant_integer (index si) = Some i"
  shows "(coder = CODER_LATIN1 \<longrightarrow>
            optimize_index little_endian si
              = Some (Some (ucast (ucast (buf ! nat (sint i)) :: jchar)), si')) \<and>
         (coder = CODER_UTF16 \<longrightarrow>
            optimize_index little_endian si
              = Some (Some (ucast (code_unit little_endian buf (nat (sint i)))), si'))"
proof (intro conjI impI)
  assume c: "coder = CODER_LATIN1"
  from fold_facts[OF assms] c coders_distinct
  have "generate_optimized_code little_endian si'
        = Some (ucast (ucast (buf ! nat (sint i)) :: jchar))"
    using generate_latin1[of si' buf little_endian] by simp
  with assms(1) show "optimize_index little_endian si
              = Some (Some (ucast (ucast (buf ! nat (sint i)) :: jchar)), si')"
    by (simp add: optimize_index_def)
next
  assume c: "coder = CODER_UTF16"
  from fold_facts[OF assms] c
  have "generate_optimized_code little_endian si'
        = Some (ucast (code_unit little_endian buf (nat (sint i))))"
    using generate_utf16[of si' buf little_endian] by simp
  with assms(1) show "optimize_index little_endian si
              = Some (Some (ucast (code_unit little_endian buf (nat (sint i)))), si')"
    by (simp add: optimize_index_def)
qed

lemma can_optimize_AB:
  "can_optimize (StringIndexer_new (latin1_string [0x41, 0x42]) (int_constant 1))
   = Some (True, \<lparr>str = latin1_string [0x41, 0x42], index = int_constant 1, start_idx = 1, end_idx = 2\<rparr>)"
  by (simp add: can_optimize_def is_constant_string_def is_valid_range_def const_oop_def
      StringIndexer_new_def latin1_string_def int_constant_def is_con_def get_con_def
      CODER_LATIN1_def CODER_UTF16_def word_sless_alt)

lemma can_optimize_wide:
  "can_optimize (StringIndexer_new (utf16_string [0x41, 0, 0x42, 1]) (int_constant 1))
   = Some (True, \<lparr>str = utf16_string [0x41, 0, 0x42, 1], index = int_constant 1, start_idx = 1, end_idx = 2\<rparr>)"
  by (simp add: can_optimize_def is_constant_string_def is_valid_range_def const_oop_def
      StringIndexer_new_def utf16_string_def int_constant_def is_con_def get_con_def
      CODER_LATIN1_def CODER_UTF16_def word_sless_alt)

theorem fold_reads_code_unit_witness:
  "optimize_index True (StringIndexer_new (latin1_string [0x41, 0x42]) (int_constant 1))
     = Some (Some 66, \<lparr>str = latin1_string [0x41, 0x42], index = int_constant 1,
                        start_idx = 1, end_idx = 2\<rparr>) \<and>
   optimize_index True (StringIndexer_new (utf16_string [0x41, 0, 0x42, 1]) (int_constant 1))
     = Some (Some 0x142, \<lparr>str = utf16_string [0x41, 0, 0x42, 1], index = int_constant 1,
                           start_idx = 1, end_idx = 2\<rparr>) \<and>
   optimize_index False (StringIndexer_new (utf16_string [0x41, 0, 0x42, 1]) (int_constant 1))
     = Some (Some 0x4201, \<lparr>str = utf16_string [0x41, 0, 0x42, 1], index = int_constant 1,
                            start_idx = 1, end_idx = 2\<rparr>)"
proof -
  let ?s1 = "StringIndexer_new (latin1_string [0x41, 0x42]) (int_constant 1)"
  let ?s2 = "StringIndexer_new (utf16_string [0x41, 0, 0x42, 1]) (int_constant 1)"
  have k1: "known_string (str ?s1) = Some ([0x41, 0x42], CODER_LATIN1)"
    and i1: "constant_integer (index ?s1) = Some 1"
    by (simp_all add: known_string_def constant_integer_def StringIndexer_new_def
        latin1_string_def int_constant_def is_con_def get_con_def)
  have k2: "known_string (str ?s2) = Some ([0x41, 0, 0x42, 1], CODER_UTF16)"
    and i2: "constant_integer (index ?s2) = Some 1"
    by (simp_all add: known_string_def constant_integer_def StringIndexer_new_def
        utf16_string_def int_constant_def is_con_def get_con_def)
  have w1: "(word_cat (1 :: jbyte) (0x42 :: jbyte) :: jchar) = 0x142"
    and w2: "(word_cat (0x42 :: jbyte) (1 :: jbyte) :: jchar) = 0x4201"
    by (simp_all add: word_cat_eq)
  from fold_reads_code_unit[OF can_optimize_AB k1 i1, of True]
  have "optimize_index True ?s1
     = Some (Some 66, \<lparr>str = latin1_string [0x41, 0x42], index = int_constant 1,
                        start_idx = 1, end_idx = 2\<rparr>)"
    by simp
  moreover from fold_reads_code_unit[OF can_optimize_wide k2 i2, of True] w1
  have "optimize_index True ?s2
     = Some (Some 0x142, \<lparr>str = utf16_string [0x41, 0, 0x42, 1], index = int_constant 1,
                           start_idx = 1, end_idx = 2\<rparr>)"
    by (simp add: code_unit_def)
  moreover from fold_reads_code_unit[OF can_optimize_wide k2 i2, of False] w2
  have "optimize_index False ?s2
     = Some (Some 0x4201, \<lparr>str = utf16_string [0x41, 0, 0x42, 1], index = int_constant 1,
                            start_idx = 1, end_idx = 2\<rparr>)"
    by (simp add: code_unit_def)
  ultimately show ?thesis by blast
qed

section \<open>Properties of the fusion pass\<close>

subsection \<open>Edge replacement\<close>

lemma node_in_gvn_replace_by:
  "node_in (gvn_replace_by g n nn) u i = (if node_in g u i = Some n then nn else node_in g u i)"
  by (simp add: node_in_def node_at_def gvn_replace_by_def)



lemma node_in_fresh: "node_in g (length g) i = None"
  by (simp add: node_in_def node_at_def)


subsection \<open>The successor search\<close>




subsection \<open>Runs of the worklist loop that change nothing\<close>

lemma process_worklist_unchanged:
  assumes "\<And>n wl'. is_CallStaticJava g n \<Longrightarrow> is_append_char_call g n \<Longrightarrow>
             optimize_append_char_call e g n wl' = (g, wl')"
  shows "process_worklist e g wl = g"
  using assms
proof (induction e g wl rule: process_worklist.induct)
  case (1 e g wl)
  show ?case
  proof (cases "items wl = []")
    case True
    then show ?thesis by (subst process_worklist.simps) simp
  next
    case False
    let ?n = "fst (pop wl)" and ?wl = "snd (pop wl)"
    show ?thesis
    proof (cases "is_CallStaticJava g ?n \<and> is_append_char_call g ?n")
      case True
      then have o: "optimize_append_char_call e g ?n ?wl = (g, ?wl)"
        using "1.prems" by blast
      have "process_worklist e g ?wl = g"
        using "1.IH"(1)[OF False refl refl] True o "1.prems" by simp
      with False True o show ?thesis
        by (subst process_worklist.simps) (simp add: Let_def)
    next
      case nc: False
      have "process_worklist e g ?wl = g"
      proof (cases "is_CallStaticJava g ?n")
        case True
        with nc have "\<not> is_append_char_call g ?n" by simp
        from "1.IH"(2)[OF False refl refl True this] "1.prems" show ?thesis by blast
      next
        case False': False
        from "1.IH"(3)[OF False refl refl False'] "1.prems" show ?thesis by blast
      qed
      with False nc show ?thesis
        by (subst process_worklist.simps) (auto simp add: Let_def)
    qed
  qed
qed

lemma optimize_unresolved:
  assumes "\<not> resolves e"
  shows "optimize e g = g"
proof -
  from assms have "create_append_char_char_call e g c r c1 c2 = None" for c r c1 c2
    by (simp add: resolves_def create_append_char_char_call_def)
  then have "optimize_append_char_call e g n wl' = (g, wl')" for n wl'
    by (simp add: optimize_append_char_call_def split: option.splits)
  then have "process_worklist e g wl = g" for wl
    by (intro process_worklist_unchanged)
  then show ?thesis by (simp add: optimize_def)
qed

text \<open>
  C8: if the two-character append target resolves on neither the builder class nor the buffer
  class, \<open>optimize\<close> completes and returns the graph it was given: no call is touched and no
  error is signalled.
\<close>

theorem optimize_unresolved_target:
  assumes "find_method e StringBuilder_klass append_name char_char_signature = None"
    and "find_method e StringBuffer_klass append_name char_char_signature = None"
  shows "optimize e g = g"
  using assms by (intro optimize_unresolved) (simp add: resolves_def)

theorem optimize_unresolved_target_witness:
  "find_next_append_char_call three_appends 10 = Some 13 \<and>
   optimize unresolving_env three_appends = three_appends"
proof -
  have a: "find_method unresolving_env StringBuilder_klass append_name char_char_signature = None"
    and b: "find_method unresolving_env StringBuffer_klass append_name char_char_signature = None"
    by (simp_all add: find_method_def unresolving_env_def)
  have "find_next_append_char_call three_appends 10 = Some 13" by code_simp
  with optimize_unresolved_target[OF a b, of three_appends] show ?thesis by simp
qed

text \<open>
  C10: when the \<open>OptimizeStringConcat\<close> flag is false, \<open>optimize\<close> returns at once: the graph
  is not scanned and is left as it was.
\<close>

theorem optimize_flag_off:
  assumes "\<not> OptimizeStringConcat e"
  shows "optimize e g = g"
  using assms by (simp add: optimize_def)

theorem optimize_flag_off_witness:
  "optimize (resolving_env\<lparr>OptimizeStringConcat := False\<rparr>) three_appends = three_appends \<and>
   optimize resolving_env three_appends \<noteq> three_appends"
proof -
  have "\<not> OptimizeStringConcat (resolving_env\<lparr>OptimizeStringConcat := False\<rparr>)" by simp
  from optimize_flag_off[OF this, of three_appends]
  have "optimize (resolving_env\<lparr>OptimizeStringConcat := False\<rparr>) three_appends = three_appends" .
  moreover have "optimize resolving_env three_appends \<noteq> three_appends" by code_simp
  ultimately show ?thesis by simp
qed

subsection \<open>The rewrite step\<close>

lemma optimize_append_char_call_fusion:
  "optimize_append_char_call e g call wl =
     (case fusion_of e g call of
        None \<Rightarrow> (g, wl)
      | Some (next_call, g1, new_call) \<Rightarrow>
          (gvn_replace_by (gvn_replace_by g1 call (Some new_call)) next_call
             (node_in (gvn_replace_by g1 call (Some new_call)) next_call Parms),
           push wl new_call))"
  by (simp add: optimize_append_char_call_def fusion_of_def Let_def split: option.splits)

lemma fusion_ofD:
  assumes "fusion_of e g call = Some (next_call, g1, new_call)"
  shows "find_next_append_char_call g call = Some next_call"
    and "new_call = length g"
    and "\<exists>m. signature m = char_char_signature \<and> name m = append_name \<and>
             (holder m = StringBuilder_klass \<or> holder m = StringBuffer_klass) \<and>
             g1 = g @ [\<lparr>nclass = CallStaticJava (Some m),
                         in_edges = [node_in g call 0, node_in g call 1, node_in g call 2,
                                     node_in g call 3, node_in g call 4, node_in g call Parms,
                                     node_in g call (Parms + 1), node_in g next_call (Parms + 1)]\<rparr>]"
  using assms
  by (auto simp: fusion_of_def create_append_char_char_call_def find_method_def transform_def
      Let_def split: option.splits if_splits)

lemma fusion_of_new_node:
  assumes "fusion_of e g call = Some (next_call, g1, new_call)"
  shows "in_edges (g1 ! new_call) =
           [node_in g call Control, node_in g call I_O, node_in g call Memory,
            node_in g call FramePtr, node_in g call ReturnAdr,
            node_in g call Parms, node_in g call (Parms + 1), node_in g next_call (Parms + 1)]"
    and "is_append_char_char_call g1 new_call"
    and "\<not> is_append_char_call g1 new_call"
    and "length g1 = Suc (length g)"
proof -
  from fusion_ofD[OF assms] obtain m where
    n: "new_call = length g" and
    m: "signature m = char_char_signature" "name m = append_name"
       "holder m = StringBuilder_klass \<or> holder m = StringBuffer_klass" and
    g1: "g1 = g @ [\<lparr>nclass = CallStaticJava (Some m),
                         in_edges = [node_in g call 0, node_in g call 1, node_in g call 2,
                                     node_in g call 3, node_in g call 4, node_in g call Parms,
                                     node_in g call (Parms + 1), node_in g next_call (Parms + 1)]\<rparr>]"
    by blast
  show "in_edges (g1 ! new_call) =
           [node_in g call Control, node_in g call I_O, node_in g call Memory,
            node_in g call FramePtr, node_in g call ReturnAdr,
            node_in g call Parms, node_in g call (Parms + 1), node_in g next_call (Parms + 1)]"
    by (simp add: n g1 Control_def I_O_def Memory_def FramePtr_def ReturnAdr_def)
  show "is_append_char_char_call g1 new_call"
    using m by (auto simp: n g1 is_append_char_char_call_def call_method_def node_at_def)
  show "\<not> is_append_char_call g1 new_call"
    using m by (auto simp: n g1 is_append_char_call_def call_method_def node_at_def)
  show "length g1 = Suc (length g)" by (simp add: g1)
qed

text \<open>
  C2: when a fusion rewrite is performed on a call and its successor \<open>next_call\<close>, the
  synthesized two-character append node has its control, I/O, memory, frame and return edges
  copied from the first call, its receiver edge equal to that call's receiver, and as character
  arguments the first call's character followed by \<open>next_call\<close>'s character. The two
  replacements that follow leave every such edge in place unless it points at one of the two
  replaced calls.
\<close>

theorem fused_call_edges:
  assumes "fusion_of e g call = Some (next_call, g1, new_call)"
  shows "in_edges (g1 ! new_call) =
           [node_in g call Control, node_in g call I_O, node_in g call Memory,
            node_in g call FramePtr, node_in g call ReturnAdr,
            node_in g call Parms, node_in g call (Parms + 1), node_in g next_call (Parms + 1)] \<and>
         is_append_char_char_call g1 new_call \<and>
         (\<forall>i. node_in g1 new_call i \<noteq> Some call \<and> node_in g1 new_call i \<noteq> Some next_call \<longrightarrow>
              node_in (fst (optimize_append_char_call e g call wl)) new_call i
                = node_in g1 new_call i)"
  using fusion_of_new_node(1,2)[OF assms] assms
  by (simp add: optimize_append_char_call_fusion node_in_gvn_replace_by)

lemma fusion_of_three_appends:
  "fusion_of resolving_env three_appends 10 = Some (13, three_appends @ [fused_ab], 19)"
  by code_simp

theorem fused_call_edges_witness:
  "in_edges ((three_appends @ [fused_ab]) ! 19)
     = [Some 0, Some 1, Some 2, Some 3, Some 4, Some 5, Some 7, Some 8] \<and>
   map (node_in (fst (optimize_append_char_call resolving_env three_appends 10 worklist_empty)) 19)
       [0, 1, 2, 3, 4, 5, 6, 7]
     = [Some 0, Some 1, Some 2, Some 3, Some 4, Some 5, Some 7, Some 8]"
proof -
  have e: "[node_in three_appends 10 Control, node_in three_appends 10 I_O,
            node_in three_appends 10 Memory, node_in three_appends 10 FramePtr,
            node_in three_appends 10 ReturnAdr, node_in three_appends 10 Parms,
            node_in three_appends 10 (Parms + 1), node_in three_appends 13 (Parms + 1)]
           = [Some 0, Some 1, Some 2, Some 3, Some 4, Some 5, Some 7, Some 8]"
    by code_simp
  have n: "map (node_in (three_appends @ [fused_ab]) 19) [0, 1, 2, 3, 4, 5, 6, 7]
           = [Some 0, Some 1, Some 2, Some 3, Some 4, Some 5, Some 7, Some 8]"
    by code_simp
  from fused_call_edges[OF fusion_of_three_appends, of worklist_empty] e n
  show ?thesis by simp
qed

subsection \<open>Which successor is found, and where its uses go\<close>






subsection \<open>Which pairs a run rewrites\<close>

text \<open>Every recorded pair stands for one node that the run adds to the graph.\<close>

lemma length_optimize_append_char_call:
  "length (fst (optimize_append_char_call e g n wl)) =
     length g + length (case fusion_of e g n of
                          None \<Rightarrow> []
                        | Some (next_call, g1, new_call) \<Rightarrow> [(n, next_call)])"
proof (cases "fusion_of e g n")
  case None
  then show ?thesis by (simp add: optimize_append_char_call_fusion)
next
  case (Some t)
  obtain y g1 new where t: "t = (y, g1, new)" by (cases t)
  from Some t fusion_of_new_node(4)[of e g n y g1 new] show ?thesis
    by (simp add: optimize_append_char_call_fusion length_gvn_replace_by)
qed

lemma length_process_worklist:
  "length (process_worklist e g wl) = length g + length (fused_pairs e g wl)"
proof (induction e g wl rule: process_worklist.induct)
  case (1 e g wl)
  show ?case
  proof (cases "items wl = []")
    case True
    then show ?thesis
      by (subst process_worklist.simps, subst fused_pairs.simps) simp
  next
    case False
    let ?n = "fst (pop wl)" and ?wl = "snd (pop wl)"
    show ?thesis
    proof (cases "is_CallStaticJava g ?n")
      case c: True
      show ?thesis
      proof (cases "is_append_char_call g ?n")
        case True
        from "1.IH"(1)[OF False refl refl c True] False c True
          length_optimize_append_char_call[of e g ?n ?wl]
        show ?thesis
          by (subst process_worklist.simps, subst fused_pairs.simps) (simp add: Let_def)
      next
        case nc: False
        from "1.IH"(2)[OF False refl refl c nc] False c nc show ?thesis
          by (subst process_worklist.simps, subst fused_pairs.simps) (simp add: Let_def)
      qed
    next
      case nc: False
      from "1.IH"(3)[OF False refl refl nc] False nc show ?thesis
        by (subst process_worklist.simps, subst fused_pairs.simps) (simp add: Let_def)
    qed
  qed
qed

lemma length_optimize: "length (optimize e g) = length g + length (optimize_fusions e g)"
  by (simp add: optimize_def optimize_fusions_def length_process_worklist)








subsection \<open>The node pushed back\<close>

lemma process_worklist_single_discarded:
  assumes "\<not> is_append_char_call g n"
  shows "process_worklist e g \<lparr>items = [n], clock_index = c\<rparr> = g"
proof -
  have p: "pop \<lparr>items = [n], clock_index = c\<rparr> = (n, \<lparr>items = [], clock_index = 0\<rparr>)"
    by (cases "c = 0") (simp_all add: pop_def Let_def)
  have e: "process_worklist e g \<lparr>items = [], clock_index = 0\<rparr> = g"
    by (subst process_worklist.simps) simp
  show ?thesis
    using assms by (subst process_worklist.simps) (simp add: p e Let_def)
qed

text \<open>
  C7, the behaviour of the code: the fused node created from a pair is pushed back onto the
  worklist, with the first call's character before the successor's; it is a two-character
  append, so when it is popped it fails the re-validation and the loop drops it without any
  rewrite. No further character chains onto it, whatever the graph.
\<close>

theorem fused_node_is_pushed_and_dropped:
  assumes "fusion_of e g call = Some (next_call, g1, new_call)"
    and "optimize_append_char_call e g call wl = (g', wl')"
  shows "new_call \<in> set (items wl') \<and>
         node_in g1 new_call (Parms + 1) = node_in g call (Parms + 1) \<and>
         node_in g1 new_call (Parms + 2) = node_in g next_call (Parms + 1) \<and>
         is_append_char_char_call g' new_call \<and>
         \<not> is_append_char_call g' new_call \<and>
         process_worklist e g' \<lparr>items = [new_call], clock_index = c\<rparr> = g'"
proof -
  let ?g2 = "gvn_replace_by g1 call (Some new_call)"
  from assms have g': "g' = gvn_replace_by ?g2 next_call (node_in ?g2 next_call Parms)"
    and wl': "wl' = push wl new_call"
    by (simp_all add: optimize_append_char_call_fusion)
  have m: "call_method g' new_call = call_method g1 new_call"
    by (simp add: g' call_method_gvn_replace_by)
  from fusion_of_new_node[OF assms(1)] have
    e: "in_edges (g1 ! new_call) =
           [node_in g call Control, node_in g call I_O, node_in g call Memory,
            node_in g call FramePtr, node_in g call ReturnAdr,
            node_in g call Parms, node_in g call (Parms + 1), node_in g next_call (Parms + 1)]"
    and cc: "is_append_char_char_call g1 new_call"
    and nc: "\<not> is_append_char_call g1 new_call"
    and l: "length g1 = Suc (length g)"
    by blast+
  from fusion_ofD(2)[OF assms(1)] l have b: "new_call < length g1" by simp
  have i1: "node_in g1 new_call (Parms + 1) = node_in g call (Parms + 1)"
    and i2: "node_in g1 new_call (Parms + 2) = node_in g next_call (Parms + 1)"
    using e b by (simp_all add: node_in_def node_at_def Parms_def)
  have cc': "is_append_char_char_call g' new_call"
    using cc by (simp add: is_append_char_char_call_def m)
  have nc': "\<not> is_append_char_call g' new_call"
    using nc by (simp add: is_append_char_call_def m)
  have "new_call \<in> set (items wl')"
    by (simp add: wl' push_def)
  with i1 i2 cc' nc' process_worklist_single_discarded[OF nc'] show ?thesis by blast
qed

theorem fused_node_is_pushed_and_dropped_witness:
  "items (snd (optimize_append_char_call resolving_env three_appends 10 worklist_empty)) = [19] \<and>
   \<not> is_append_char_call
       (fst (optimize_append_char_call resolving_env three_appends 10 worklist_empty)) 19 \<and>
   process_worklist resolving_env
       (fst (optimize_append_char_call resolving_env three_appends 10 worklist_empty))
       \<lparr>items = [19], clock_index = 0\<rparr>
     = fst (optimize_append_char_call resolving_env three_appends 10 worklist_empty)"
proof -
  obtain g' wl' where
    o: "optimize_append_char_call resolving_env three_appends 10 worklist_empty = (g', wl')"
    by (cases "optimize_append_char_call resolving_env three_appends 10 worklist_empty")
  have i: "items (snd (optimize_append_char_call resolving_env three_appends 10 worklist_empty))
           = [19]"
    by code_simp
  from fused_node_is_pushed_and_dropped[OF fusion_of_three_appends o, of 0] i
  show ?thesis by (simp add: o)
qed

text \<open>
  C7 as stated fails on \<open>three_appends\<close>. The run performs one rewrite, of the calls for 'a'
  and 'b'; node 19 is the only two-character append of the result. Before the run, control
  from the start node reaches the calls 10, 13 and 16, which append the nodes 7, 8, 9: 'a',
  'b', 'c'. After the run it reaches call 10, the fused call 19 and call 13, which still
  follows the control projections of the fused call: 'a', 'a', 'b', 'b'. The control
  projection 14 of call 13 now hangs off the receiver, node 5, and is no control-flow node any
  more, so control does not reach call 16 and its 'c'. Input edges lead from the exit, node 18,
  to call 16 and to no other call.
\<close>

theorem three_appends_no_chaining_counterexample:
  "optimize resolving_env three_appends = three_appends_fused \<and>
   optimize_fusions resolving_env three_appends = [(10, 13)] \<and>
   filter (is_append_char_char_call three_appends_fused) [0..<length three_appends_fused] = [19] \<and>
   in_edges (three_appends_fused ! 19)
     = [Some 0, Some 1, Some 2, Some 3, Some 4, Some 5, Some 7, Some 8] \<and>
   calls_in_control_order three_appends 0 = [10, 13, 16] \<and>
   decoded_output three_appends 0 = [Some 7, Some 8, Some 9] \<and>
   calls_in_control_order three_appends_fused 0 = [10, 19, 13] \<and>
   decoded_output three_appends_fused 0 = [Some 7, Some 7, Some 8, Some 8] \<and>
   node_in three_appends_fused 14 0 = Some 5 \<and>
   \<not> is_CFG three_appends_fused 14 \<and>
   filter (\<lambda>n. is_CallStaticJava three_appends_fused n \<and>
                 find_by_inputs three_appends_fused 18 n = Some n)
          [0..<length three_appends_fused] = [16]"
  by code_simp

subsection \<open>Graphs with plain receivers\<close>









subsection \<open>One rewrite on a graph with plain receivers\<close>






























subsection \<open>Repeated runs\<close>













text \<open>
  The scan matters as well. In \<open>hidden_pair\<close> every receiver is a plain value, but the scan
  from the exit, node 20, reaches call 16 alone. The first run fuses the calls 16 and 19. The
  new node has the value 15 as its second character, so input edges now lead from the exit to
  the calls 10 and 13, and a second run fuses them.
\<close>

lemma optimize_twice_hidden_pair:
  "plain_receivers hidden_pair \<and>
   \<not> scan_finds_calls (resolving_env\<lparr>root := 20\<rparr>) hidden_pair \<and>
   optimize_fusions (resolving_env\<lparr>root := 20\<rparr>) hidden_pair = [(16, 19)] \<and>
   optimize_fusions (resolving_env\<lparr>root := 20\<rparr>)
       (optimize (resolving_env\<lparr>root := 20\<rparr>) hidden_pair) = [(10, 13)] \<and>
   optimize (resolving_env\<lparr>root := 20\<rparr>)
       (optimize (resolving_env\<lparr>root := 20\<rparr>) hidden_pair)
     \<noteq> optimize (resolving_env\<lparr>root := 20\<rparr>) hidden_pair"
  by code_simp

end
